theory Spec2Isabelle
  imports Main "HOL-Library.Word"
begin

unbundle bit_operations_syntax

chapter \<open>Terminal session core: definitions\<close>

section \<open>ExtendedCharTable (Emulation.cpp)\<close>

text \<open>
  \<^verbatim>\<open>ExtendedCharTable\<close> keeps a hash table from 16-bit handles to heap buffers of
  \<^verbatim>\<open>ushort\<close>. A buffer holds the length of the sequence in cell 0 and the code points
  after it. The table is a map from handles to buffer contents; a key that the
  \<^verbatim>\<open>QHash\<close> does not contain is \<open>None\<close>. A sequence passed as
  \<^verbatim>\<open>(ushort* unicodePoints, ushort length)\<close> is the list of its code points; since
  \<^verbatim>\<open>length\<close> is a \<^verbatim>\<open>ushort\<close>, such a list has fewer than 65536 elements.
\<close>

type_synonym ushort = "16 word"
type_synonym extendedCharTable = "ushort \<rightharpoonup> ushort list"

text \<open>\<^verbatim>\<open>extendedCharHash\<close>: \<^verbatim>\<open>hash = 31 * hash + unicodePoints[i]\<close>, truncated to 16 bits.\<close>

definition extendedCharHash :: "ushort list \<Rightarrow> ushort" where
  "extendedCharHash unicodePoints = foldl (\<lambda>hash p. 31 * hash + p) 0 unicodePoints"

text \<open>
  The comparison loop of \<^verbatim>\<open>extendedCharMatch\<close>: \<^verbatim>\<open>entry[i+1] != unicodePoints[i]\<close> for
  \<^verbatim>\<open>i < length\<close>. The first argument is the buffer after its length cell. The second
  equation is a read past the end of the buffer; it does not happen on a buffer whose
  length cell is right, and the loop is only entered when that cell equals \<^verbatim>\<open>length\<close>.
\<close>

fun match_loop :: "ushort list \<Rightarrow> ushort list \<Rightarrow> bool" where
  "match_loop es [] = True"
| "match_loop [] (p # ps) = False"
| "match_loop (e # es) (p # ps) = (if e \<noteq> p then False else match_loop es ps)"

text \<open>
  \<^verbatim>\<open>extendedCharMatch\<close>: \<^verbatim>\<open>entry == nullptr || entry[0] != length\<close> gives false, otherwise
  the loop decides. Every stored buffer has a length cell, so the case of an empty
  buffer stands for no buffer.
\<close>

definition extendedCharMatch :: "extendedCharTable \<Rightarrow> ushort \<Rightarrow> ushort list \<Rightarrow> bool" where
  "extendedCharMatch table hash unicodePoints =
     (case table hash of
        None \<Rightarrow> False
      | Some [] \<Rightarrow> False
      | Some (len # entry) \<Rightarrow>
          if len \<noteq> word_of_nat (length unicodePoints) then False
          else match_loop entry unicodePoints)"

text \<open>
  The probing loop of \<^verbatim>\<open>createExtendedChar\<close>, with the insertion that follows it.
  \<^verbatim>\<open>hash++\<close> wraps at 16 bits and the loop has no bound, so the function is partial:
  \<open>None\<close> is a call that never returns. A result is the returned handle and the table
  after the call.
\<close>

partial_function (option) createExtendedChar_loop ::
  "extendedCharTable \<Rightarrow> ushort list \<Rightarrow> ushort \<Rightarrow> (ushort \<times> extendedCharTable) option" where
  "createExtendedChar_loop table unicodePoints hash =
     (if table hash \<noteq> None then
        (if extendedCharMatch table hash unicodePoints then Some (hash, table)
         else createExtendedChar_loop table unicodePoints (hash + 1))
      else Some (hash, table(hash \<mapsto> word_of_nat (length unicodePoints) # unicodePoints)))"

definition createExtendedChar ::
  "extendedCharTable \<Rightarrow> ushort list \<Rightarrow> (ushort \<times> extendedCharTable) option" where
  "createExtendedChar table unicodePoints =
     createExtendedChar_loop table unicodePoints (extendedCharHash unicodePoints)"

text \<open>
  \<^verbatim>\<open>lookupExtendedChar\<close> returns a pointer to the code points and sets \<^verbatim>\<open>length\<close>;
  \<open>None\<close> is the null pointer.
\<close>

definition lookupExtendedChar :: "extendedCharTable \<Rightarrow> ushort \<Rightarrow> ushort list option \<times> ushort" where
  "lookupExtendedChar table hash =
     (case table hash of
        Some (len # buffer) \<Rightarrow> (Some buffer, len)
      | _ \<Rightarrow> (None, 0))"

text \<open>
  The invariant of the table: every buffer was written by \<^verbatim>\<open>createExtendedChar\<close>, so
  its first cell is the number of code points after it.
\<close>

definition wf_table :: "extendedCharTable \<Rightarrow> bool" where
  "wf_table table =
     (\<forall>hash buffer. table hash = Some buffer \<longrightarrow>
        buffer \<noteq> [] \<and> length (tl buffer) < 65536 \<and> hd buffer = word_of_nat (length (tl buffer)))"

text \<open>
  \<open>found_at table ps h n\<close>: probing from \<open>h\<close>, the first \<open>n\<close> slots hold other
  sequences and slot \<open>h + n\<close> holds \<open>ps\<close>.
\<close>

definition found_at :: "extendedCharTable \<Rightarrow> ushort list \<Rightarrow> ushort \<Rightarrow> nat \<Rightarrow> bool" where
  "found_at table ps h n =
     ((\<forall>k<n. table (h + word_of_nat k) \<noteq> None \<and>
             table (h + word_of_nat k) \<noteq> Some (word_of_nat (length ps) # ps)) \<and>
      table (h + word_of_nat n) = Some (word_of_nat (length ps) # ps))"

text \<open>
  The table after every single code point has been interned: slot \<open>h\<close> holds the
  one-element sequence \<open>[h]\<close>, whose hash is \<open>h\<close>. \<open>fill_table n\<close> is the table
  after the first \<open>n\<close> of these calls.
\<close>

definition full_table :: extendedCharTable where
  "full_table = (\<lambda>h. Some [1, h])"

definition fill_table :: "nat \<Rightarrow> extendedCharTable" where
  "fill_table n = (\<lambda>h. if unat h < n then Some [1, h] else None)"

section \<open>Emulation (Emulation.cpp)\<close>

type_synonym wchar = "32 word"
type_synonym byte = "8 word"

text \<open>
  Modelled from the spec: \<^verbatim>\<open>Screen\<close> (Screen.h and Screen.cpp are not among the sources).
  A screen buffer has a size in lines and columns, the counters of scrolled and dropped
  lines, its scrollback (bounded or unbounded, with the lines it holds) and its contents.
  The contents are kept as the sequence of cursor and glyph calls the buffer has
  received: what a call does to the cells is the buffer's own business, the controller
  only chooses the call.
\<close>

datatype screenCall = Backspace | Tab | NewLine | ToStartOfLine | DisplayCharacter wchar

datatype historyType = Bounded nat | Unbounded

record screen =
  getLines :: int
  getColumns :: int
  scrolledLines :: int
  droppedLines :: int
  received :: "screenCall list"
  getScroll :: historyType
  histLines :: "wchar list list"

definition Screen :: "int \<Rightarrow> int \<Rightarrow> screen" where
  "Screen l c =
     \<lparr>getLines = l, getColumns = c, scrolledLines = 0, droppedLines = 0, received = [],
      getScroll = Bounded 0, histLines = []\<rparr>"

text \<open>
  Modelled from the spec: \<^verbatim>\<open>Screen::setScroll(t, copyPreviousScroll)\<close> (not among the
  sources) replaces the scrollback by one of type \<open>t\<close>; the new scrollback takes over
  the lines of the old one, the most recent ones as far as it has room, when
  \<open>copyPreviousScroll\<close> is true (the default), and is empty otherwise.
\<close>

definition scroll_fit :: "historyType \<Rightarrow> wchar list list \<Rightarrow> wchar list list" where
  "scroll_fit t ls = (case t of Bounded n \<Rightarrow> drop (length ls - n) ls | Unbounded \<Rightarrow> ls)"

definition setScroll :: "historyType \<Rightarrow> bool \<Rightarrow> screen \<Rightarrow> screen" where
  "setScroll t copyPreviousScroll scr =
     scr\<lparr>getScroll := t,
         histLines := (if copyPreviousScroll then scroll_fit t (histLines scr) else [])\<rparr>"

definition Screen_call :: "screenCall \<Rightarrow> screen \<Rightarrow> screen" where
  "Screen_call c scr = scr\<lparr>received := received scr @ [c]\<rparr>"

definition resizeImage :: "int \<Rightarrow> int \<Rightarrow> screen \<Rightarrow> screen" where
  "resizeImage new_lines new_columns scr = scr\<lparr>getLines := new_lines, getColumns := new_columns\<rparr>"

definition resetScrolledLines :: "screen \<Rightarrow> screen" where
  "resetScrolledLines scr = scr\<lparr>scrolledLines := 0\<rparr>"

definition resetDroppedLines :: "screen \<Rightarrow> screen" where
  "resetDroppedLines scr = scr\<lparr>droppedLines := 0\<rparr>"

text \<open>
  Modelled from the spec: \<^verbatim>\<open>ScreenWindow\<close> (not among the sources), a view bound to one of
  the two buffers. \<^verbatim>\<open>Screen*\<close> values are the indices 0 and 1 of \<^verbatim>\<open>_screen[2]\<close>; the two
  buffers are distinct objects, so comparing pointers is comparing indices.
  \<open>setScreenCalls\<close> counts the rebind requests the view has been sent.
\<close>

record screenWindow =
  windowScreen :: nat
  setScreenCalls :: nat

definition window_setScreen :: "nat \<Rightarrow> screenWindow \<Rightarrow> screenWindow" where
  "window_setScreen p w = w\<lparr>windowScreen := p, setScreenCalls := setScreenCalls w + 1\<rparr>"

text \<open>
  \<^verbatim>\<open>QTimer\<close>, as far as the controller uses it. Time is in milliseconds; an active timer
  times out at \<open>expiry\<close>. \<^verbatim>\<open>start(msec)\<close> starts the timer, or restarts it when it is
  running.
\<close>

record qtimer =
  isActive :: bool
  isSingleShot :: bool
  expiry :: int

definition setSingleShot :: "bool \<Rightarrow> qtimer \<Rightarrow> qtimer" where
  "setSingleShot b t = t\<lparr>isSingleShot := b\<rparr>"

definition timer_start :: "int \<Rightarrow> int \<Rightarrow> qtimer \<Rightarrow> qtimer" where
  "timer_start now msec t = t\<lparr>isActive := True, expiry := now + msec\<rparr>"

definition timer_stop :: "qtimer \<Rightarrow> qtimer" where
  "timer_stop t = t\<lparr>isActive := False\<rparr>"

text \<open>The states of Emulation.h and the signals the functions below emit.\<close>

definition NOTIFYNORMAL :: int where "NOTIFYNORMAL = 0"
definition NOTIFYBELL :: int where "NOTIFYBELL = 1"
definition NOTIFYACTIVITY :: int where "NOTIFYACTIVITY = 2"

datatype signal = StateSet int | ZmodemDetected | OutputChanged | ImageSizeChanged int int

text \<open>
  The fields of \<^verbatim>\<open>Emulation\<close> that the functions below read or write. \<open>'d\<close> is the
  state of the \<^verbatim>\<open>QStringDecoder\<close>; \<open>None\<close> is a null \<^verbatim>\<open>_decoder\<close>. \<open>emitted\<close>
  is the sequence of signals emitted so far.
\<close>

record 'd emulation =
  windows :: "screenWindow list"
  currentScreen :: nat
  screen0 :: screen
  screen1 :: screen
  decoder :: "'d option"
  bulkTimer1 :: qtimer
  bulkTimer2 :: qtimer
  emitted :: "signal list"

text \<open>The constructor: two screens of 40 lines and 80 columns, the first one current.\<close>

definition Emulation :: "'d \<Rightarrow> 'd emulation" where
  "Emulation utf8 =
     \<lparr>windows = [], currentScreen = 0, screen0 = Screen 40 80, screen1 = Screen 40 80,
      decoder = Some utf8,
      bulkTimer1 = \<lparr>isActive = False, isSingleShot = False, expiry = 0\<rparr>,
      bulkTimer2 = \<lparr>isActive = False, isSingleShot = False, expiry = 0\<rparr>,
      emitted = []\<rparr>"

definition emit :: "signal \<Rightarrow> 'd emulation \<Rightarrow> 'd emulation" where
  "emit sig s = s\<lparr>emitted := emitted s @ [sig]\<rparr>"

text \<open>\<^verbatim>\<open>*_currentScreen\<close>, read and written.\<close>

definition currentScreen_deref :: "'d emulation \<Rightarrow> screen" where
  "currentScreen_deref s = (if currentScreen s = 0 then screen0 s else screen1 s)"

definition on_currentScreen :: "(screen \<Rightarrow> screen) \<Rightarrow> 'd emulation \<Rightarrow> 'd emulation" where
  "on_currentScreen f s =
     (if currentScreen s = 0 then s\<lparr>screen0 := f (screen0 s)\<rparr> else s\<lparr>screen1 := f (screen1 s)\<rparr>)"

text \<open>\<^verbatim>\<open>createWindow\<close>: a new view, bound to the current screen and appended to \<^verbatim>\<open>_windows\<close>.\<close>

definition createWindow :: "'d emulation \<Rightarrow> 'd emulation" where
  "createWindow s =
     s\<lparr>windows := windows s @
          [window_setScreen (currentScreen s) \<lparr>windowScreen = 0, setScreenCalls = 0\<rparr>]\<rparr>"

text \<open>\<^verbatim>\<open>setScreen(int n)\<close>: \<^verbatim>\<open>_currentScreen = _screen[n & 1]\<close>, then the views are rebound
  when the pointer has changed.\<close>

definition setScreen :: "int \<Rightarrow> 'd emulation \<Rightarrow> 'd emulation" where
  "setScreen n s =
     (let old = currentScreen s;
          s1 = s\<lparr>currentScreen := nat (n AND 1)\<rparr>
      in if currentScreen s1 \<noteq> old
         then s1\<lparr>windows := map (window_setScreen (currentScreen s1)) (windows s1)\<rparr>
         else s1)"

text \<open>\<^verbatim>\<open>receiveChar(wchar_t c)\<close>: \<^verbatim>\<open>c &= 0xff\<close>, then the switch on
  \<^verbatim>\<open>'\b'\<close> (8), \<^verbatim>\<open>'\t'\<close> (9), \<^verbatim>\<open>'\n'\<close> (10), \<^verbatim>\<open>'\r'\<close> (13) and 0x07.\<close>

definition receiveChar :: "wchar \<Rightarrow> 'd emulation \<Rightarrow> 'd emulation" where
  "receiveChar ch s =
     (let c = ch AND 0xff in
      if c = 8 then on_currentScreen (Screen_call Backspace) s
      else if c = 9 then on_currentScreen (Screen_call Tab) s
      else if c = 10 then on_currentScreen (Screen_call NewLine) s
      else if c = 13 then on_currentScreen (Screen_call ToStartOfLine) s
      else if c = 7 then emit (StateSet NOTIFYBELL) s
      else on_currentScreen (Screen_call (DisplayCharacter c)) s)"

definition BULK_TIMEOUT1 :: int where "BULK_TIMEOUT1 = 10"
definition BULK_TIMEOUT2 :: int where "BULK_TIMEOUT2 = 40"

definition showBulk :: "'d emulation \<Rightarrow> 'd emulation" where
  "showBulk s =
     on_currentScreen resetDroppedLines
       (on_currentScreen resetScrolledLines
          (emit OutputChanged
             (s\<lparr>bulkTimer1 := timer_stop (bulkTimer1 s), bulkTimer2 := timer_stop (bulkTimer2 s)\<rparr>)))"

text \<open>
  \<^verbatim>\<open>clearHistory\<close> and \<^verbatim>\<open>setHistory\<close>; both work on \<^verbatim>\<open>_screen[0]\<close>, whichever screen
  is current.
\<close>

definition clearHistory :: "'d emulation \<Rightarrow> 'd emulation" where
  "clearHistory s = s\<lparr>screen0 := setScroll (getScroll (screen0 s)) False (screen0 s)\<rparr>"

definition setHistory :: "historyType \<Rightarrow> 'd emulation \<Rightarrow> 'd emulation" where
  "setHistory t s = showBulk (s\<lparr>screen0 := setScroll t True (screen0 s)\<rparr>)"

text \<open>\<^verbatim>\<open>bufferedUpdate\<close>, called at time \<open>now\<close>.\<close>

definition bufferedUpdate :: "int \<Rightarrow> 'd emulation \<Rightarrow> 'd emulation" where
  "bufferedUpdate now s =
     (let s1 = s\<lparr>bulkTimer1 := timer_start now BULK_TIMEOUT1 (setSingleShot True (bulkTimer1 s))\<rparr>
      in if \<not> isActive (bulkTimer2 s1)
         then s1\<lparr>bulkTimer2 := timer_start now BULK_TIMEOUT2 (setSingleShot True (bulkTimer2 s1))\<rparr>
         else s1)"

text \<open>
  The event loop at time \<open>now\<close>: a timer that is active and has reached its expiry
  times out; a single-shot timer is inactive from then on. The constructor connects the
  \<^verbatim>\<open>timeout\<close> signal of both timers to \<^verbatim>\<open>showBulk\<close>.
\<close>

definition timer_due :: "int \<Rightarrow> qtimer \<Rightarrow> bool" where
  "timer_due now t = (isActive t \<and> expiry t \<le> now)"

definition timer_fire :: "qtimer \<Rightarrow> qtimer" where
  "timer_fire t = (if isSingleShot t then t\<lparr>isActive := False\<rparr> else t)"

definition timerEvent :: "int \<Rightarrow> 'd emulation \<Rightarrow> 'd emulation" where
  "timerEvent now s =
     (let s1 = (if timer_due now (bulkTimer1 s)
                then showBulk (s\<lparr>bulkTimer1 := timer_fire (bulkTimer1 s)\<rparr>) else s)
      in if timer_due now (bulkTimer2 s1)
         then showBulk (s1\<lparr>bulkTimer2 := timer_fire (bulkTimer2 s1)\<rparr>) else s1)"

text \<open>\<^verbatim>\<open>setImageSize(lines, columns)\<close>; a \<^verbatim>\<open>QSize\<close> is the pair of width and height.\<close>

definition setImageSize :: "int \<Rightarrow> int \<Rightarrow> int \<Rightarrow> 'd emulation \<Rightarrow> 'd emulation" where
  "setImageSize now lines columns s =
     (if lines < 1 \<or> columns < 1 then s
      else
        let screenSize0 = (getColumns (screen0 s), getLines (screen0 s));
            screenSize1 = (getColumns (screen1 s), getLines (screen1 s));
            newSize = (columns, lines)
        in if newSize = screenSize0 \<and> newSize = screenSize1 then s
           else bufferedUpdate now
                  (emit (ImageSizeChanged lines columns)
                     (s\<lparr>screen0 := resizeImage lines columns (screen0 s),
                        screen1 := resizeImage lines columns (screen1 s)\<rparr>)))"

text \<open>
  The last loop of \<^verbatim>\<open>receiveData\<close>, from index \<open>i\<close> on. \<^verbatim>\<open>'\030'\<close> is 0x18 and
  \<^verbatim>\<open>"B00"\<close> is 0x42, 0x30, 0x30; \<^verbatim>\<open>strncmp\<close> is only called when more than three
  bytes follow position \<open>i\<close>, and then compares the three bytes after it.
\<close>

function zmodem_loop :: "byte list \<Rightarrow> nat \<Rightarrow> 'd emulation \<Rightarrow> 'd emulation" where
  "zmodem_loop text i s =
     (if i < length text then
        zmodem_loop text (i + 1)
          (if text ! i = 0x18 then
             (if int (length text) - int i - 1 > 3 \<and> take 3 (drop (i + 1) text) = [0x42, 0x30, 0x30]
              then emit ZmodemDetected s else s)
           else s)
      else s)"
  by pat_completeness auto
termination
  by (relation "measure (\<lambda>(text, i, s). length text - i)") auto

declare zmodem_loop.simps [simp del]

text \<open>
  \<^verbatim>\<open>receiveData(text, length)\<close> at time \<open>now\<close>. \<open>decode\<close> is the decoder of Qt followed
  by \<^verbatim>\<open>toStdWString\<close>: from the decoder's state and the bytes it gives the decoded
  characters and the decoder's next state.
\<close>

definition receiveData ::
  "('d \<Rightarrow> byte list \<Rightarrow> wchar list \<times> 'd) \<Rightarrow> int \<Rightarrow> byte list \<Rightarrow> 'd emulation \<Rightarrow> 'd emulation" where
  "receiveData decode now text s =
     (let s1 = bufferedUpdate now (emit (StateSet NOTIFYACTIVITY) s) in
      case decoder s1 of
        None \<Rightarrow> s1
      | Some d \<Rightarrow>
          let (unicodeString, d') = decode d text;
              s2 = foldl (\<lambda>st c. receiveChar c st) (s1\<lparr>decoder := Some d'\<rparr>) unicodeString
          in zmodem_loop text 0 s2)"

text \<open>The Latin-1 decoder, which has no state: every byte is one character.\<close>

definition latin1 :: "unit \<Rightarrow> byte list \<Rightarrow> wchar list \<times> unit" where
  "latin1 d text = (map ucast text, d)"

text \<open>
  A position of a chunk that starts the marker: 0x18, then \<^verbatim>\<open>B00\<close>, then at least one
  more byte.
\<close>

definition zmodem_marker_at :: "byte list \<Rightarrow> nat \<Rightarrow> bool" where
  "zmodem_marker_at text i =
     (text ! i = 0x18 \<and> i + 4 < length text \<and>
      text ! (i + 1) = 0x42 \<and> text ! (i + 2) = 0x30 \<and> text ! (i + 3) = 0x30)"

section \<open>HistorySearch (HistorySearch.cpp)\<close>

text \<open>
  What the search uses of the emulation: \<^verbatim>\<open>lineCount()\<close> and
  \<^verbatim>\<open>writeToStream(&decoder, startLine, endLine)\<close>. The second fills a
  \<^verbatim>\<open>PlainTextDecoder\<close> that records line positions; the search reads back the decoded
  string and \<^verbatim>\<open>decoder.linePositions()\<close>, so the call is a function from the two line
  numbers to that pair. Line and column numbers are \<^verbatim>\<open>int\<close> in the source and far from
  its bounds; they are integers here.
\<close>

record textSource =
  lineCount :: int
  writeToStream :: "int \<Rightarrow> int \<Rightarrow> string \<times> int list"

text \<open>
  What the search uses of \<^verbatim>\<open>QRegularExpression\<close>: \<^verbatim>\<open>pattern()\<close>,
  \<^verbatim>\<open>match(string, offset)\<close> and \<^verbatim>\<open>globalMatch(string)\<close>. A match is its
  \<^verbatim>\<open>capturedStart()\<close> and \<^verbatim>\<open>capturedLength()\<close>; \<open>None\<close> is a match object for which
  \<^verbatim>\<open>hasMatch()\<close> is false. The iterator of \<^verbatim>\<open>globalMatch\<close> is the list of the matches
  it yields.
\<close>

type_synonym rxMatch = "int \<times> int"

record regExp =
  pattern :: string
  rxMatch :: "string \<Rightarrow> int \<Rightarrow> rxMatch option"
  globalMatch :: "string \<Rightarrow> rxMatch list"

definition capturedStart :: "rxMatch \<Rightarrow> int" where
  "capturedStart m = fst m"

definition capturedLength :: "rxMatch \<Rightarrow> int" where
  "capturedLength m = snd m"

text \<open>\<^verbatim>\<open>findLineNumberInString\<close>: the loop, from \<open>lineNum\<close> on, and the function.\<close>

function findLineNumberInString_loop :: "int list \<Rightarrow> int \<Rightarrow> nat \<Rightarrow> nat" where
  "findLineNumberInString_loop linePositions position lineNum =
     (if lineNum + 1 < length linePositions \<and> linePositions ! (lineNum + 1) \<le> position
      then findLineNumberInString_loop linePositions position (lineNum + 1)
      else lineNum)"
  by pat_completeness auto
termination
  by (relation "measure (\<lambda>(linePositions, position, lineNum). length linePositions - lineNum)") auto

declare findLineNumberInString_loop.simps [simp del]

definition findLineNumberInString :: "int list \<Rightarrow> int \<Rightarrow> int" where
  "findLineNumberInString linePositions position =
     int (findLineNumberInString_loop linePositions position 0)"

text \<open>\<^verbatim>\<open>QList::at\<close>: an index out of range is an error, here \<open>None\<close>.\<close>

definition QList_at :: "int list \<Rightarrow> int \<Rightarrow> int option" where
  "QList_at xs i = (if 0 \<le> i \<and> i < int (length xs) then Some (xs ! nat i) else None)"

text \<open>
  The result of \<^verbatim>\<open>search(startColumn, startLine, endColumn, endLine)\<close>: \<open>Match\<close> is
  \<^verbatim>\<open>true\<close> with the four \<^verbatim>\<open>m_found\<close> fields, \<open>NoMatch\<close> is \<^verbatim>\<open>false\<close>,
  \<open>OutOfRange\<close> is a failed \<^verbatim>\<open>at\<close>. A request is a pair of line numbers passed to
  \<^verbatim>\<open>writeToStream\<close>.
\<close>

datatype outcome = OutOfRange | NoMatch | Match int int int int

type_synonym request = "int \<times> int"

text \<open>
  The loop over the match iterator of a backward search: \<open>lastMatch\<close> is kept while
  the current match starts before \<open>endPosition\<close> and, unless \<open>startColumn\<close> is -1,
  not before \<open>startColumn\<close>; the first other match ends the loop.
\<close>

fun backward_scan :: "int \<Rightarrow> int \<Rightarrow> rxMatch list \<Rightarrow> rxMatch option \<Rightarrow> rxMatch option" where
  "backward_scan endPosition startColumn [] lastMatch = lastMatch"
| "backward_scan endPosition startColumn (currentMatch # iterator) lastMatch =
     (let currentStart = capturedStart currentMatch in
      if currentStart < endPosition \<and> (startColumn = - 1 \<or> currentStart \<ge> startColumn)
      then backward_scan endPosition startColumn iterator (Some currentMatch)
      else lastMatch)"

text \<open>The two branches on \<^verbatim>\<open>m_forwards\<close>: the values of \<^verbatim>\<open>match\<close> and \<^verbatim>\<open>matchStart\<close>
  after them.\<close>

definition block_match ::
  "regExp \<Rightarrow> bool \<Rightarrow> string \<Rightarrow> int \<Rightarrow> int \<Rightarrow> rxMatch option \<times> int" where
  "block_match rx forwards string startColumn endPosition =
     (if forwards then
        (case rxMatch rx string startColumn of
           None \<Rightarrow> (None, - 1)
         | Some m \<Rightarrow> (Some m, if capturedStart m \<ge> endPosition then - 1 else capturedStart m))
      else
        (case backward_scan endPosition startColumn (globalMatch rx string) None of
           None \<Rightarrow> (None, - 1)
         | Some m \<Rightarrow> (Some m, capturedStart m)))"

definition endPosition_of :: "string \<Rightarrow> int list \<Rightarrow> int \<Rightarrow> int" where
  "endPosition_of string linePositions endColumn =
     (let numberOfLinesInString = int (length linePositions) - 1 in
      if numberOfLinesInString > 0 \<and> endColumn > - 1
      then linePositions ! nat (numberOfLinesInString - 1) + endColumn
      else int (length string))"

text \<open>
  The body of the loop of \<^verbatim>\<open>search(int, int, int, int)\<close> for one block, after
  \<^verbatim>\<open>blockStartLine\<close> and \<^verbatim>\<open>chunkEndLine\<close> have been computed: \<open>NoMatch\<close> when the
  loop goes on to the next block.
\<close>

definition search_block ::
  "textSource \<Rightarrow> regExp \<Rightarrow> bool \<Rightarrow> int \<Rightarrow> int \<Rightarrow> int \<Rightarrow> int \<Rightarrow> int \<Rightarrow> int \<Rightarrow> outcome" where
  "search_block emulation rx forwards startColumn startLine endColumn linesRead blockStartLine chunkEndLine =
     (let (string, linePositions) = writeToStream emulation blockStartLine chunkEndLine;
          endPosition = endPosition_of string linePositions endColumn;
          (match, matchStart) = block_match rx forwards string startColumn endPosition
      in if matchStart > - 1 then
           (let matchEnd = matchStart + (case match of Some m \<Rightarrow> capturedLength m | None \<Rightarrow> 0) - 1;
                startLineNumberInString = findLineNumberInString linePositions matchStart;
                endLineNumberInString = findLineNumberInString linePositions matchEnd
            in case (QList_at linePositions startLineNumberInString,
                     QList_at linePositions endLineNumberInString) of
                 (Some startPos, Some endPos) \<Rightarrow>
                   Match (matchStart - startPos) (startLineNumberInString + startLine + linesRead)
                         (matchEnd - endPos) (endLineNumberInString + startLine + linesRead)
               | _ \<Rightarrow> OutOfRange)
         else NoMatch)"

text \<open>
  The loop of \<^verbatim>\<open>search(int, int, int, int)\<close> from \<open>linesRead\<close> on. The result is the
  outcome together with the requests made to \<^verbatim>\<open>writeToStream\<close>, in order.
\<close>

function search_loop ::
  "textSource \<Rightarrow> regExp \<Rightarrow> bool \<Rightarrow> int \<Rightarrow> int \<Rightarrow> int \<Rightarrow> int \<Rightarrow> int \<Rightarrow> outcome \<times> request list" where
  "search_loop emulation rx forwards startColumn startLine endColumn endLine linesRead =
     (let linesToRead = endLine - startLine + 1;
          blockSize = min 10000 (linesToRead - linesRead)
      in if blockSize > 0 then
           (let blockStartLine = (if forwards then startLine + linesRead
                                  else endLine - linesRead - blockSize + 1);
                chunkEndLine = blockStartLine + blockSize - 1
            in case search_block emulation rx forwards startColumn startLine endColumn linesRead
                      blockStartLine chunkEndLine of
                 NoMatch \<Rightarrow>
                   apsnd ((#) (blockStartLine, chunkEndLine))
                     (search_loop emulation rx forwards startColumn startLine endColumn endLine
                        (linesRead + blockSize))
               | found \<Rightarrow> (found, [(blockStartLine, chunkEndLine)]))
         else (NoMatch, []))"
  by pat_completeness auto
termination
  by (relation "measure (\<lambda>(emulation, rx, forwards, startColumn, startLine, endColumn, endLine, linesRead).
        nat (endLine - startLine + 1 - linesRead))") auto

declare search_loop.simps [simp del]

record historySearch =
  m_regExp :: regExp
  m_forwards :: bool
  m_startColumn :: int
  m_startLine :: int

definition search4 ::
  "textSource \<Rightarrow> historySearch \<Rightarrow> int \<Rightarrow> int \<Rightarrow> int \<Rightarrow> int \<Rightarrow> outcome \<times> request list" where
  "search4 emulation hs startColumn startLine endColumn endLine =
     search_loop emulation (m_regExp hs) (m_forwards hs) startColumn startLine endColumn endLine 0"

text \<open>\<^verbatim>\<open>a || b\<close>: the second search runs only when the first returned \<^verbatim>\<open>false\<close>.\<close>

definition or_else ::
  "outcome \<times> request list \<Rightarrow> outcome \<times> request list \<Rightarrow> outcome \<times> request list" where
  "or_else a b = (case fst a of NoMatch \<Rightarrow> (fst b, snd a @ snd b) | _ \<Rightarrow> a)"

text \<open>
  \<^verbatim>\<open>search()\<close>: the signals emitted, whether \<^verbatim>\<open>deleteLater()\<close> was reached, whether an
  \<^verbatim>\<open>at\<close> failed, and the requests made.
\<close>

datatype searchSignal = MatchFound int int int int | NoMatchFound

record searchRun =
  signals :: "searchSignal list"
  deleteLater :: bool
  outOfRange :: bool
  streamed :: "request list"

definition search :: "textSource \<Rightarrow> historySearch \<Rightarrow> searchRun" where
  "search emulation hs =
     (if pattern (m_regExp hs) \<noteq> [] then
        (let found =
           (if m_forwards hs then
              or_else (search4 emulation hs (m_startColumn hs) (m_startLine hs) (- 1) (lineCount emulation))
                      (search4 emulation hs 0 0 (m_startColumn hs) (m_startLine hs))
            else
              or_else (search4 emulation hs 0 0 (m_startColumn hs) (m_startLine hs))
                      (search4 emulation hs (m_startColumn hs) (m_startLine hs) (- 1) (lineCount emulation)))
         in case fst found of
              Match sc sl ec el \<Rightarrow>
                \<lparr>signals = [MatchFound sc sl ec el], deleteLater = True, outOfRange = False,
                 streamed = snd found\<rparr>
            | NoMatch \<Rightarrow>
                \<lparr>signals = [NoMatchFound], deleteLater = True, outOfRange = False, streamed = snd found\<rparr>
            | OutOfRange \<Rightarrow>
                \<lparr>signals = [], deleteLater = False, outOfRange = True, streamed = snd found\<rparr>)
      else \<lparr>signals = [], deleteLater = True, outOfRange = False, streamed = []\<rparr>)"




text \<open>
  Modelled from the spec: \<^verbatim>\<open>Screen::writeLinesToStream\<close> with \<^verbatim>\<open>PlainTextDecoder\<close>
  (Screen.cpp and TerminalCharacterDecoder.cpp are not among the sources), the decoder
  capability that "yields decoded text plus the offset at which each source line begins".
  The lines of a block are joined by line breaks and every line's offset is recorded. The
  spec leaves open whether the text ends with a line break whose offset is recorded as
  well; \<open>closing\<close> chooses. A line outside the buffer is empty.
\<close>

definition line_at :: "string list \<Rightarrow> int \<Rightarrow> string" where
  "line_at ls y = (if 0 \<le> y \<and> y < int (length ls) then ls ! nat y else [])"

fun decodeLines :: "bool \<Rightarrow> string list \<Rightarrow> int \<Rightarrow> string \<times> int list" where
  "decodeLines closing [] pos = ([], [])"
| "decodeLines closing [l] pos =
     (if closing then (l @ [CHR 0x0A], [pos, pos + int (length l)]) else (l, [pos]))"
| "decodeLines closing (l # ls) pos =
     (case decodeLines closing ls (pos + int (length l) + 1) of
        (s, ps) \<Rightarrow> (l @ [CHR 0x0A] @ s, pos # ps))"

definition screenText :: "bool \<Rightarrow> string list \<Rightarrow> textSource" where
  "screenText closing ls =
     \<lparr>lineCount = int (length ls),
      writeToStream = (\<lambda>a b. decodeLines closing (map (line_at ls) [a..b]) 0)\<rparr>"

text \<open>
  \<^verbatim>\<open>QRegularExpression\<close> for a pattern without metacharacters: \<^verbatim>\<open>match\<close> gives the
  first occurrence at or after the offset, \<^verbatim>\<open>globalMatch\<close> the occurrences from left to
  right that do not overlap.
\<close>

fun find_literal :: "string \<Rightarrow> string \<Rightarrow> nat \<Rightarrow> nat option" where
  "find_literal p [] pos = None"
| "find_literal p (c # cs) pos =
     (if take (length p) (c # cs) = p then Some pos else find_literal p cs (pos + 1))"

fun all_literal :: "string \<Rightarrow> string \<Rightarrow> nat \<Rightarrow> nat \<Rightarrow> rxMatch list" where
  "all_literal p [] pos skip = []"
| "all_literal p (c # cs) pos skip =
     (if skip = 0 \<and> take (length p) (c # cs) = p
      then (int pos, int (length p)) # all_literal p cs (pos + 1) (length p - 1)
      else all_literal p cs (pos + 1) (skip - 1))"

definition literal :: "string \<Rightarrow> regExp" where
  "literal p =
     \<lparr>pattern = p,
      rxMatch = (\<lambda>s offset.
         if offset < 0 \<or> int (length s) < offset then None
         else map_option (\<lambda>i. (int i, int (length p)))
                (find_literal p (drop (nat offset) s) (nat offset))),
      globalMatch = (\<lambda>s. all_literal p s 0 0)\<rparr>"

text \<open>The \<^verbatim>\<open>HistorySearch\<close> object for a literal pattern.\<close>

definition hsearch :: "string \<Rightarrow> bool \<Rightarrow> int \<Rightarrow> int \<Rightarrow> historySearch" where
  "hsearch p fw sc sl = \<lparr>m_regExp = literal p, m_forwards = fw, m_startColumn = sc, m_startLine = sl\<rparr>"

chapter \<open>Properties\<close>

section \<open>ExtendedCharTable\<close>

lemma match_loop_eq: "length es = length ps \<Longrightarrow> match_loop es ps = (es = ps)"
  by (induction es ps rule: match_loop.induct) auto

lemma ushort_of_nat_inj:
  "m < 65536 \<Longrightarrow> n < 65536 \<Longrightarrow> (word_of_nat m :: ushort) = word_of_nat n \<Longrightarrow> m = n"
proof -
  assume "m < 65536" "n < 65536" and eq: "(word_of_nat m :: ushort) = word_of_nat n"
  from eq have "unat (word_of_nat m :: ushort) = unat (word_of_nat n :: ushort)" by simp
  then have "m mod 65536 = n mod 65536" by (simp add: unat_of_nat)
  with \<open>m < 65536\<close> \<open>n < 65536\<close> show "m = n" by simp
qed

lemma extendedCharMatch_iff:
  assumes "wf_table table" "length ps < 65536"
  shows "extendedCharMatch table h ps \<longleftrightarrow> table h = Some (word_of_nat (length ps) # ps)"
proof (cases "table h")
  case None
  then show ?thesis by (simp add: extendedCharMatch_def)
next
  case (Some buffer)
  with assms(1) have wf: "buffer \<noteq> []" "length (tl buffer) < 65536"
    "hd buffer = word_of_nat (length (tl buffer))"
    by (auto simp: wf_table_def)
  then obtain len entry where b: "buffer = len # entry" by (cases buffer) auto
  with wf have le: "length entry < 65536" and len: "len = word_of_nat (length entry)" by auto
  show ?thesis
  proof (cases "len = word_of_nat (length ps)")
    case True
    with len le assms(2) have "length entry = length ps"
      by (auto dest: ushort_of_nat_inj)
    with True Some b show ?thesis
      by (simp add: extendedCharMatch_def match_loop_eq)
  next
    case False
    with Some b show ?thesis by (simp add: extendedCharMatch_def)
  qed
qed

lemma loop_skip:
  assumes "wf_table table" "length ps < 65536"
  shows "(\<forall>k<n. table (h + word_of_nat k) \<noteq> None \<and>
             table (h + word_of_nat k) \<noteq> Some (word_of_nat (length ps) # ps))
     \<Longrightarrow> createExtendedChar_loop table ps h = createExtendedChar_loop table ps (h + word_of_nat n)"
proof (induction n)
  case 0
  show ?case by simp
next
  case (Suc n)
  then have "createExtendedChar_loop table ps h = createExtendedChar_loop table ps (h + word_of_nat n)"
    by simp
  also from Suc.prems have "table (h + word_of_nat n) \<noteq> None"
    "\<not> extendedCharMatch table (h + word_of_nat n) ps"
    by (simp_all add: extendedCharMatch_iff [OF assms])
  then have "createExtendedChar_loop table ps (h + word_of_nat n)
      = createExtendedChar_loop table ps (h + word_of_nat n + 1)"
    by (subst createExtendedChar_loop.simps) simp
  finally show ?case by (simp add: ac_simps)
qed

lemma loop_found:
  assumes "wf_table table" "length ps < 65536" "found_at table ps h n"
  shows "createExtendedChar_loop table ps h = Some (h + word_of_nat n, table)"
proof -
  from assms(3) have "createExtendedChar_loop table ps h
      = createExtendedChar_loop table ps (h + word_of_nat n)"
    by (intro loop_skip [OF assms(1,2)]) (simp add: found_at_def)
  also from assms(3) have "\<dots> = Some (h + word_of_nat n, table)"
    by (subst createExtendedChar_loop.simps)
       (simp add: found_at_def extendedCharMatch_iff [OF assms(1,2)])
  finally show ?thesis .
qed

lemma found_at_mono:
  assumes "found_at table ps h n" "table \<subseteq>\<^sub>m table'"
  shows "found_at table' ps h n"
proof -
  have keep: "table' x = table x" if "table x \<noteq> None" for x
    using assms(2) that by (auto simp: map_le_def dom_def)
  from assms(1) show ?thesis
    unfolding found_at_def by (auto simp: keep)
qed

lemma wf_table_update:
  assumes "wf_table table" "length ps < 65536"
  shows "wf_table (table(h \<mapsto> word_of_nat (length ps) # ps))"
  using assms by (auto simp: wf_table_def)

lemma loop_returns:
  assumes wf: "wf_table table" and len: "length ps < 65536" and free: "table h0 = None"
  shows "\<exists>n table'. createExtendedChar_loop table ps h = Some (h + word_of_nat n, table') \<and>
           found_at table' ps h n \<and> table \<subseteq>\<^sub>m table' \<and> wf_table table' \<and>
           (table' = table \<or> (table (h + word_of_nat n) = None \<and>
              table' = table(h + word_of_nat n \<mapsto> word_of_nat (length ps) # ps)))"
proof -
  let ?buf = "word_of_nat (length ps) # ps"
  let ?stop = "\<lambda>k. table (h + word_of_nat k) = None \<or> table (h + word_of_nat k) = Some ?buf"
  have "?stop (unat (h0 - h))" using free by simp
  define n where "n = (LEAST k. ?stop k)"
  have stop: "?stop n" unfolding n_def by (rule LeastI [of ?stop, OF \<open>?stop (unat (h0 - h))\<close>])
  have before: "\<not> ?stop k" if "k < n" for k
    using that not_less_Least unfolding n_def by blast
  have nle: "n \<le> unat (h0 - h)" unfolding n_def by (rule Least_le) (use free in simp)
  then have n16: "n < 65536" using unsigned_less [of "h0 - h", where ?'a = nat] by simp
  have skip: "createExtendedChar_loop table ps h = createExtendedChar_loop table ps (h + word_of_nat n)"
    by (rule loop_skip [OF wf len]) (use before in auto)
  have distinct: "h + word_of_nat k \<noteq> h + word_of_nat n" if "k < n" for k
  proof
    assume "h + word_of_nat k = h + word_of_nat n"
    then have "(word_of_nat k :: ushort) = word_of_nat n" by simp
    from ushort_of_nat_inj [OF _ n16 this] that n16 show False by simp
  qed
  from stop show ?thesis
  proof
    assume none: "table (h + word_of_nat n) = None"
    let ?t' = "table(h + word_of_nat n \<mapsto> ?buf)"
    have "createExtendedChar_loop table ps (h + word_of_nat n) = Some (h + word_of_nat n, ?t')"
      by (subst createExtendedChar_loop.simps) (simp add: none)
    moreover have "found_at ?t' ps h n"
      unfolding found_at_def using before distinct by auto
    moreover have "table \<subseteq>\<^sub>m ?t'" using none by (auto simp: map_le_def)
    moreover have "wf_table ?t'" by (rule wf_table_update [OF wf len])
    ultimately show ?thesis using skip none by auto
  next
    assume some: "table (h + word_of_nat n) = Some ?buf"
    then have f: "found_at table ps h n" unfolding found_at_def using before by auto
    from loop_found [OF wf len f] f wf show ?thesis by auto
  qed
qed

lemma loop_diverges:
  assumes "\<And>h. table h \<noteq> None \<and> \<not> extendedCharMatch table h ps"
  shows "createExtendedChar_loop table ps h = None"
proof (rule ccontr)
  assume "createExtendedChar_loop table ps h \<noteq> None"
  then obtain y where y: "createExtendedChar_loop table ps h = Some y" by auto
  have "\<not> (\<forall>h. table h \<noteq> None \<and> \<not> extendedCharMatch table h ps)"
    by (rule createExtendedChar_loop.raw_induct
        [where P = "\<lambda>t p h y. \<not> (\<forall>h. t h \<noteq> None \<and> \<not> extendedCharMatch t h p)", OF _ y])
       (auto split: if_splits)
  with assms show False by simp
qed

lemma fill_table_empty: "fill_table 0 = Map.empty"
  by (simp add: fill_table_def)

lemma fill_table_full: "fill_table 65536 = full_table"
proof
  fix h :: ushort
  have "unat h < 65536" using unsigned_less [of h, where ?'a = nat] by simp
  then show "fill_table 65536 h = full_table h" by (simp add: fill_table_def full_table_def)
qed

lemma fill_table_step:
  assumes "n < 65536"
  shows "createExtendedChar (fill_table n) [word_of_nat n] = Some (word_of_nat n, fill_table (Suc n))"
proof -
  have un: "unat (word_of_nat n :: ushort) = n" using assms by (simp add: unat_of_nat)
  have "(fill_table n)(word_of_nat n \<mapsto> [1, word_of_nat n]) = fill_table (Suc n)"
  proof
    fix h :: ushort
    show "((fill_table n)(word_of_nat n \<mapsto> [1, word_of_nat n])) h = fill_table (Suc n) h"
    proof (cases "h = word_of_nat n")
      case True
      then show ?thesis using un by (simp add: fill_table_def)
    next
      case False
      have "word_of_nat (unat h) = h" by simp
      with False have "unat h \<noteq> n" by auto
      with False show ?thesis by (auto simp: fill_table_def)
    qed
  qed
  moreover have "fill_table n (word_of_nat n) = None" using un by (simp add: fill_table_def)
  ultimately show ?thesis
    by (simp add: createExtendedChar_def extendedCharHash_def createExtendedChar_loop.simps)
qed

text \<open>
  C1, as stated, fails on a full table: interning a sequence that is not in it probes all
  65536 slots again and again and never returns, so there is no handle at all.
\<close>

theorem createExtendedChar_full_table_counterexample:
  "createExtendedChar full_table [0x65, 0x301] = None"
  unfolding createExtendedChar_def
  by (rule loop_diverges) (simp add: full_table_def extendedCharMatch_def)

text \<open>
  C1 (amended): on a well-formed table with two free slots, interning two distinct
  non-empty sequences \<open>A\<close> and then \<open>B\<close> returns, the two handles differ, interning
  either of them again returns the same handle and leaves the table as it is, and
  looking a handle up gives back the sequence and its length.
\<close>

theorem createExtendedChar_distinct_roundtrip:
  assumes wf: "wf_table table"
    and free: "table h1 = None" "table h2 = None" "h1 \<noteq> h2"
    and A: "A \<noteq> []" "length A < 65536"
    and B: "B \<noteq> []" "length B < 65536"
    and AB: "A \<noteq> B"
  shows "\<exists>hA t1 hB t2.
      createExtendedChar table A = Some (hA, t1) \<and>
      createExtendedChar t1 A = Some (hA, t1) \<and>
      lookupExtendedChar t1 hA = (Some A, word_of_nat (length A)) \<and>
      createExtendedChar t1 B = Some (hB, t2) \<and>
      hA \<noteq> hB \<and>
      createExtendedChar t2 A = Some (hA, t2) \<and>
      createExtendedChar t2 B = Some (hB, t2) \<and>
      lookupExtendedChar t2 hA = (Some A, word_of_nat (length A)) \<and>
      lookupExtendedChar t2 hB = (Some B, word_of_nat (length B))"
proof -
  let ?a = "extendedCharHash A" and ?b = "extendedCharHash B"
  from loop_returns [OF wf A(2) free(1), of ?a]
  obtain n t1 where
    cA: "createExtendedChar_loop table A ?a = Some (?a + word_of_nat n, t1)" and
    fA: "found_at t1 A ?a n" and wf1: "wf_table t1" and
    t1: "t1 = table \<or> (table (?a + word_of_nat n) = None \<and>
           t1 = table(?a + word_of_nat n \<mapsto> word_of_nat (length A) # A))"
    by blast
  have "t1 h1 = None \<or> t1 h2 = None"
    using t1 free by (cases "?a + word_of_nat n = h1") auto
  then obtain h0 where free1: "t1 h0 = None" by blast
  from loop_returns [OF wf1 B(2) free1, of ?b]
  obtain m t2 where
    cB: "createExtendedChar_loop t1 B ?b = Some (?b + word_of_nat m, t2)" and
    fB: "found_at t2 B ?b m" and le: "t1 \<subseteq>\<^sub>m t2" and wf2: "wf_table t2"
    by blast
  have fA2: "found_at t2 A ?a n" by (rule found_at_mono [OF fA le])
  have atA: "t2 (?a + word_of_nat n) = Some (word_of_nat (length A) # A)"
    and atA1: "t1 (?a + word_of_nat n) = Some (word_of_nat (length A) # A)"
    and atB: "t2 (?b + word_of_nat m) = Some (word_of_nat (length B) # B)"
    using fA fA2 fB by (simp_all add: found_at_def)
  have "?a + word_of_nat n \<noteq> ?b + word_of_nat m"
    using atA atB AB by auto
  moreover note cA cB
    loop_found [OF wf1 A(2) fA] loop_found [OF wf2 A(2) fA2] loop_found [OF wf2 B(2) fB]
  ultimately show ?thesis
    using atA atA1 atB by (simp add: createExtendedChar_def lookupExtendedChar_def)
qed

text \<open>
  In the witness the two sequences have the same hash, 33, so the second one is stored
  one slot further.
\<close>

theorem createExtendedChar_distinct_roundtrip_witness:
  "wf_table Map.empty \<and> (Map.empty :: extendedCharTable) 0 = None \<and>
   (Map.empty :: extendedCharTable) 1 = None \<and> (0 :: ushort) \<noteq> 1 \<and>
   [1, 2 :: ushort] \<noteq> [] \<and> length [1, 2 :: ushort] < 65536 \<and>
   [0, 33 :: ushort] \<noteq> [] \<and> length [0, 33 :: ushort] < 65536 \<and>
   [1, 2 :: ushort] \<noteq> [0, 33] \<and>
   (\<exists>hA t1 hB t2.
      createExtendedChar Map.empty [1, 2] = Some (hA, t1) \<and>
      createExtendedChar t1 [1, 2] = Some (hA, t1) \<and>
      lookupExtendedChar t1 hA = (Some [1, 2], 2) \<and>
      createExtendedChar t1 [0, 33] = Some (hB, t2) \<and>
      hA \<noteq> hB \<and>
      createExtendedChar t2 [1, 2] = Some (hA, t2) \<and>
      createExtendedChar t2 [0, 33] = Some (hB, t2) \<and>
      lookupExtendedChar t2 hA = (Some [1, 2], 2) \<and>
      lookupExtendedChar t2 hB = (Some [0, 33], 2))"
  using createExtendedChar_distinct_roundtrip [of Map.empty 0 1 "[1, 2]" "[0, 33]"]
  by (simp add: wf_table_def)

section \<open>Emulation\<close>

lemma mask8: "(0xff :: wchar) = mask 8"
  by (simp add: mask_eq_exp_minus_1)

lemma low_byte_id: "ch \<le> 0xff \<Longrightarrow> ch AND 0xff = (ch :: wchar)"
proof -
  assume "ch \<le> 0xff"
  then have "uint ch \<le> 255" by (simp add: word_le_def)
  then have "uint ch < 2 ^ 8" by simp
  then have "ch AND mask 8 = ch" by (simp only: mask_eq_iff)
  then show ?thesis by (simp only: mask8)
qed

lemma take3:
  assumes "i + 4 < length text"
  shows "take 3 (drop (i + 1) text) = [a, b, c] \<longleftrightarrow>
         text ! (i + 1) = a \<and> text ! (i + 2) = b \<and> text ! (i + 3) = c"
proof -
  have "take 3 (drop (i + 1) text) = [text ! (i + 1), text ! (i + 2), text ! (i + 3)]"
  proof -
    have "drop (i + 1) text = text ! (i + 1) # drop (i + 2) text"
      using Cons_nth_drop_Suc [of "i + 1" "text"] assms by simp
    moreover have "drop (i + 2) text = text ! (i + 2) # drop (i + 3) text"
      using Cons_nth_drop_Suc [of "i + 2" "text"] assms by (simp add: numeral_3_eq_3)
    moreover have "drop (i + 3) text = text ! (i + 3) # drop (i + 4) text"
      using Cons_nth_drop_Suc [of "i + 3" "text"] assms by (simp add: eval_nat_numeral)
    ultimately show ?thesis by (simp add: eval_nat_numeral)
  qed
  then show ?thesis by simp
qed

lemma emitted_on_currentScreen [simp]: "emitted (on_currentScreen f s) = emitted s"
  by (simp add: on_currentScreen_def)

lemma emitted_emit [simp]: "emitted (emit sig s) = emitted s @ [sig]"
  by (simp add: emit_def)

lemma emitted_bufferedUpdate [simp]: "emitted (bufferedUpdate now s) = emitted s"
  by (simp add: bufferedUpdate_def Let_def)

lemma decoder_bufferedUpdate [simp]: "decoder (bufferedUpdate now s) = decoder s"
  by (simp add: bufferedUpdate_def Let_def)

lemma decoder_emit [simp]: "decoder (emit sig s) = decoder s"
  by (simp add: emit_def)

lemma zmodem_receiveChar:
  "count_list (emitted (receiveChar c s)) ZmodemDetected = count_list (emitted s) ZmodemDetected"
  by (simp add: receiveChar_def Let_def)

lemma zmodem_receiveChars:
  "count_list (emitted (foldl (\<lambda>st c. receiveChar c st) s cs)) ZmodemDetected
     = count_list (emitted s) ZmodemDetected"
  by (induction cs arbitrary: s) (simp_all add: zmodem_receiveChar)

lemma zmodem_loop_count:
  "count_list (emitted (zmodem_loop bs i s)) ZmodemDetected
     = count_list (emitted s) ZmodemDetected + length (filter (zmodem_marker_at bs) [i..<length bs])"
proof (induction bs i s rule: zmodem_loop.induct)
  case (1 bs i s)
  show ?case
  proof (cases "i < length bs")
    case False
    then show ?thesis by (subst zmodem_loop.simps) simp
  next
    case True
    let ?hit = "bs ! i = 0x18 \<and> int (length bs) - int i - 1 > 3 \<and>
                take 3 (drop (i + 1) bs) = [0x42, 0x30, 0x30]"
    have hit: "?hit \<longleftrightarrow> zmodem_marker_at bs i"
    proof (cases "i + 4 < length bs")
      case True
      note t = take3 [OF True, where a = "0x42" and b = "0x30" and c = "0x30"]
      show ?thesis using True unfolding zmodem_marker_at_def t by auto
    next
      case False
      then show ?thesis by (auto simp: zmodem_marker_at_def)
    qed
    have upt: "[i..<length bs] = i # [i + 1..<length bs]"
      using True by (simp add: upt_conv_Cons)
    let ?s' = "if bs ! i = 0x18 then (if int (length bs) - int i - 1 > 3 \<and>
                take 3 (drop (i + 1) bs) = [0x42, 0x30, 0x30] then emit ZmodemDetected s else s) else s"
    have step: "zmodem_loop bs i s = zmodem_loop bs (i + 1) ?s'"
      using True by (subst zmodem_loop.simps) simp
    have "count_list (emitted ?s') ZmodemDetected
        = count_list (emitted s) ZmodemDetected + (if zmodem_marker_at bs i then 1 else 0)"
      using hit by (auto simp: zmodem_marker_at_def)
    with "1.IH" [OF True] step upt show ?thesis by simp
  qed
qed

text \<open>
  C5 (amended): a call of \<^verbatim>\<open>receiveData\<close> with a decoder installed emits one
  \<^verbatim>\<open>zmodemDetected\<close> for every position of the chunk that holds 0x18 followed by
  \<^verbatim>\<open>B00\<close> and at least one more byte: as many notifications as there are such
  positions.
\<close>

theorem receiveData_zmodem_per_occurrence:
  assumes "decoder s \<noteq> None"
  shows "count_list (emitted (receiveData decode now text s)) ZmodemDetected
           = count_list (emitted s) ZmodemDetected
             + length (filter (zmodem_marker_at text) [0..<length text])"
proof -
  from assms obtain d where d: "decoder s = Some d" by auto
  obtain us d' where dec: "decode d text = (us, d')" by (cases "decode d text")
  show ?thesis
    by (simp add: receiveData_def Let_def d dec zmodem_loop_count zmodem_receiveChars)
qed

theorem receiveData_zmodem_per_occurrence_witness:
  "decoder (Emulation ()) \<noteq> None \<and>
   count_list (emitted (receiveData latin1 0 [0x2a, 0x2a, 0x18, 0x42, 0x30, 0x30, 0x30, 0x30] (Emulation ())))
      ZmodemDetected = 1"
  using receiveData_zmodem_per_occurrence
    [of "Emulation ()" latin1 0 "[0x2a, 0x2a, 0x18, 0x42, 0x30, 0x30, 0x30, 0x30]"]
  by (simp add: Emulation_def zmodem_marker_at_def upt_rec [of _ "numeral _"] upt_rec [of _ "Suc _"])

text \<open>
  C5, as stated, fails: a chunk that holds the marker twice raises two notifications,
  and a chunk that ends with the marker raises none.
\<close>

theorem receiveData_zmodem_counterexample:
  "emitted (receiveData latin1 0
      [0x18, 0x42, 0x30, 0x30, 0x30, 0x18, 0x42, 0x30, 0x30, 0x30] (Emulation ()))
     = [StateSet NOTIFYACTIVITY, ZmodemDetected, ZmodemDetected] \<and>
   emitted (receiveData latin1 0 [0x18, 0x42, 0x30, 0x30] (Emulation ()))
     = [StateSet NOTIFYACTIVITY]"
  by (simp add: receiveData_def Let_def Emulation_def latin1_def receiveChar_def
      zmodem_loop.simps on_currentScreen_def emit_def bufferedUpdate_def)

lemma Screen_fields [simp]:
  "getLines (Screen l c) = l" "getColumns (Screen l c) = c" "scrolledLines (Screen l c) = 0"
  "droppedLines (Screen l c) = 0" "received (Screen l c) = []"
  "getScroll (Screen l c) = Bounded 0" "histLines (Screen l c) = []"
  by (simp_all add: Screen_def)

lemma Emulation_fields [simp]:
  "windows (Emulation d) = []" "currentScreen (Emulation d) = 0"
  "screen0 (Emulation d) = Screen 40 80" "screen1 (Emulation d) = Screen 40 80"
  "decoder (Emulation d) = Some d" "emitted (Emulation d) = []"
  "isActive (bulkTimer1 (Emulation d)) = False" "isActive (bulkTimer2 (Emulation d)) = False"
  by (simp_all add: Emulation_def)

text \<open>
  C4, as stated, fails above 0xff: U+0141 is written as the glyph 0x41, U+0108 is
  taken for a backspace and U+0107 for the bell.
\<close>

theorem receiveChar_low_byte_counterexample:
  "received (screen0 (receiveChar 0x141 (Emulation ()))) = [DisplayCharacter 0x41] \<and>
   received (screen0 (receiveChar 0x108 (Emulation ()))) = [Backspace] \<and>
   emitted (receiveChar 0x107 (Emulation ())) = [StateSet NOTIFYBELL]"
  by (simp add: receiveChar_def Emulation_def Screen_def on_currentScreen_def Screen_call_def emit_def)

text \<open>
  C4 (amended): \<^verbatim>\<open>receiveChar\<close> looks at the low eight bits of the code point only.
  For a code point up to 0xff, backspace, tab, line feed and carriage return make the
  current screen's call of that name, 0x07 emits \<^verbatim>\<open>stateSet(NOTIFYBELL)\<close>, and every
  other code point is displayed as itself.
\<close>

theorem receiveChar_dispatch:
  "receiveChar ch s = receiveChar (ch AND 0xff) s \<and>
   (ch \<le> 0xff \<longrightarrow>
      receiveChar ch s =
        (if ch = 8 then on_currentScreen (Screen_call Backspace) s
         else if ch = 9 then on_currentScreen (Screen_call Tab) s
         else if ch = 10 then on_currentScreen (Screen_call NewLine) s
         else if ch = 13 then on_currentScreen (Screen_call ToStartOfLine) s
         else if ch = 7 then emit (StateSet NOTIFYBELL) s
         else on_currentScreen (Screen_call (DisplayCharacter ch)) s))"
proof
  have "(ch AND 0xff) AND 0xff = ch AND 0xff" by (simp add: and.assoc)
  then show "receiveChar ch s = receiveChar (ch AND 0xff) s"
    by (simp only: receiveChar_def)
next
  show "ch \<le> 0xff \<longrightarrow>
      receiveChar ch s =
        (if ch = 8 then on_currentScreen (Screen_call Backspace) s
         else if ch = 9 then on_currentScreen (Screen_call Tab) s
         else if ch = 10 then on_currentScreen (Screen_call NewLine) s
         else if ch = 13 then on_currentScreen (Screen_call ToStartOfLine) s
         else if ch = 7 then emit (StateSet NOTIFYBELL) s
         else on_currentScreen (Screen_call (DisplayCharacter ch)) s)"
  proof
    assume "ch \<le> 0xff"
    then have "ch AND 0xff = ch" by (rule low_byte_id)
    then show "receiveChar ch s =
        (if ch = 8 then on_currentScreen (Screen_call Backspace) s
         else if ch = 9 then on_currentScreen (Screen_call Tab) s
         else if ch = 10 then on_currentScreen (Screen_call NewLine) s
         else if ch = 13 then on_currentScreen (Screen_call ToStartOfLine) s
         else if ch = 7 then emit (StateSet NOTIFYBELL) s
         else on_currentScreen (Screen_call (DisplayCharacter ch)) s)"
      by (simp only: receiveChar_def Let_def)
  qed
qed

theorem receiveChar_dispatch_witness:
  "(0x41 :: wchar) \<le> 0xff \<and>
   received (screen0 (receiveChar 0x41 (Emulation ()))) = [DisplayCharacter 0x41] \<and>
   received (screen0 (receiveChar 0x4e2d (Emulation ()))) = received (screen0 (receiveChar 0x2d (Emulation ())))"
  using receiveChar_dispatch [of "0x41" "Emulation ()"] receiveChar_dispatch [of "0x4e2d" "Emulation ()"]
  by (simp add: Emulation_def Screen_def on_currentScreen_def Screen_call_def)

lemma bufferedUpdate_timers:
  "isActive (bulkTimer1 (bufferedUpdate now s))"
  "expiry (bulkTimer1 (bufferedUpdate now s)) = now + 10"
  "isActive (bulkTimer2 (bufferedUpdate now s))"
  "expiry (bulkTimer2 (bufferedUpdate now s))
     = (if isActive (bulkTimer2 s) then expiry (bulkTimer2 s) else now + 40)"
  by (simp_all add: bufferedUpdate_def Let_def timer_start_def setSingleShot_def
      BULK_TIMEOUT1_def BULK_TIMEOUT2_def)

text \<open>
  C6: \<^verbatim>\<open>setImageSize\<close> with a dimension below 1 changes nothing and emits nothing; so
  does a call with the size both screens already have; any other call gives both
  screens the new size, emits \<^verbatim>\<open>imageSizeChanged\<close> once and arms the timers as
  \<^verbatim>\<open>bufferedUpdate\<close> does: afterwards the first timer runs and expires 10 ms from now,
  and the second runs and expires 40 ms from now unless it was running already.
\<close>

theorem setImageSize_resize:
  "(lines < 1 \<or> columns < 1 \<longrightarrow> setImageSize now lines columns s = s) \<and>
   (getLines (screen0 s) = lines \<and> getColumns (screen0 s) = columns \<and>
    getLines (screen1 s) = lines \<and> getColumns (screen1 s) = columns \<longrightarrow>
      setImageSize now lines columns s = s) \<and>
   (1 \<le> lines \<and> 1 \<le> columns \<and>
    \<not> (getLines (screen0 s) = lines \<and> getColumns (screen0 s) = columns \<and>
       getLines (screen1 s) = lines \<and> getColumns (screen1 s) = columns) \<longrightarrow>
      getLines (screen0 (setImageSize now lines columns s)) = lines \<and>
      getColumns (screen0 (setImageSize now lines columns s)) = columns \<and>
      getLines (screen1 (setImageSize now lines columns s)) = lines \<and>
      getColumns (screen1 (setImageSize now lines columns s)) = columns \<and>
      emitted (setImageSize now lines columns s) = emitted s @ [ImageSizeChanged lines columns] \<and>
      bulkTimer1 (setImageSize now lines columns s) = bulkTimer1 (bufferedUpdate now s) \<and>
      bulkTimer2 (setImageSize now lines columns s) = bulkTimer2 (bufferedUpdate now s) \<and>
      screen0 (setImageSize now lines columns s) = resizeImage lines columns (screen0 s) \<and>
      screen1 (setImageSize now lines columns s) = resizeImage lines columns (screen1 s) \<and>
      isActive (bulkTimer1 (setImageSize now lines columns s)) \<and>
      expiry (bulkTimer1 (setImageSize now lines columns s)) = now + 10 \<and>
      isActive (bulkTimer2 (setImageSize now lines columns s)) \<and>
      expiry (bulkTimer2 (setImageSize now lines columns s))
        = (if isActive (bulkTimer2 s) then expiry (bulkTimer2 s) else now + 40))"
proof (intro conjI impI)
  assume "lines < 1 \<or> columns < 1"
  then show "setImageSize now lines columns s = s" by (auto simp: setImageSize_def)
next
  assume "getLines (screen0 s) = lines \<and> getColumns (screen0 s) = columns \<and>
    getLines (screen1 s) = lines \<and> getColumns (screen1 s) = columns"
  then show "setImageSize now lines columns s = s" by (auto simp: setImageSize_def Let_def)
next
  assume a: "1 \<le> lines \<and> 1 \<le> columns \<and>
    \<not> (getLines (screen0 s) = lines \<and> getColumns (screen0 s) = columns \<and>
       getLines (screen1 s) = lines \<and> getColumns (screen1 s) = columns)"
  let ?s' = "emit (ImageSizeChanged lines columns)
     (s\<lparr>screen0 := resizeImage lines columns (screen0 s),
        screen1 := resizeImage lines columns (screen1 s)\<rparr>)"
  from a have eq: "setImageSize now lines columns s = bufferedUpdate now ?s'"
    by (auto simp: setImageSize_def Let_def)
  have keep: "screen0 (bufferedUpdate now ?s') = resizeImage lines columns (screen0 s)"
    "screen1 (bufferedUpdate now ?s') = resizeImage lines columns (screen1 s)"
    "bulkTimer1 (bufferedUpdate now ?s') = bulkTimer1 (bufferedUpdate now s)"
    "bulkTimer2 (bufferedUpdate now ?s') = bulkTimer2 (bufferedUpdate now s)"
    "isActive (bulkTimer2 ?s') = isActive (bulkTimer2 s)"
    "expiry (bulkTimer2 ?s') = expiry (bulkTimer2 s)"
    by (simp_all add: bufferedUpdate_def Let_def emit_def)
  show "getLines (screen0 (setImageSize now lines columns s)) = lines"
    "getColumns (screen0 (setImageSize now lines columns s)) = columns"
    "getLines (screen1 (setImageSize now lines columns s)) = lines"
    "getColumns (screen1 (setImageSize now lines columns s)) = columns"
    "screen0 (setImageSize now lines columns s) = resizeImage lines columns (screen0 s)"
    "screen1 (setImageSize now lines columns s) = resizeImage lines columns (screen1 s)"
    "bulkTimer1 (setImageSize now lines columns s) = bulkTimer1 (bufferedUpdate now s)"
    "bulkTimer2 (setImageSize now lines columns s) = bulkTimer2 (bufferedUpdate now s)"
    unfolding eq keep by (simp_all add: resizeImage_def)
  show "emitted (setImageSize now lines columns s) = emitted s @ [ImageSizeChanged lines columns]"
    by (simp add: eq)
  show "isActive (bulkTimer1 (setImageSize now lines columns s))"
    "expiry (bulkTimer1 (setImageSize now lines columns s)) = now + 10"
    "isActive (bulkTimer2 (setImageSize now lines columns s))"
    "expiry (bulkTimer2 (setImageSize now lines columns s))
        = (if isActive (bulkTimer2 s) then expiry (bulkTimer2 s) else now + 40)"
    unfolding eq using bufferedUpdate_timers [of now ?s'] by (simp_all only: keep)
qed

theorem setImageSize_resize_witness:
  "setImageSize 0 0 80 (Emulation ()) = Emulation () \<and>
   setImageSize 0 40 (- 1) (Emulation ()) = Emulation () \<and>
   setImageSize 0 40 80 (Emulation ()) = Emulation () \<and>
   getLines (screen0 (setImageSize 0 24 80 (Emulation ()))) = 24 \<and>
   getLines (screen1 (setImageSize 0 24 80 (Emulation ()))) = 24 \<and>
   emitted (setImageSize 0 24 80 (Emulation ())) = [ImageSizeChanged 24 80] \<and>
   isActive (bulkTimer1 (setImageSize 7 24 80 (Emulation ()))) \<and>
   expiry (bulkTimer1 (setImageSize 7 24 80 (Emulation ()))) = 17 \<and>
   isActive (bulkTimer2 (setImageSize 7 24 80 (Emulation ()))) \<and>
   expiry (bulkTimer2 (setImageSize 7 24 80 (Emulation ()))) = 47 \<and>
   \<not> isActive (bulkTimer1 (setImageSize 7 40 80 (Emulation ())))"
  using setImageSize_resize [of 0 80 0 "Emulation ()"] setImageSize_resize [of 40 "- 1" 0 "Emulation ()"]
    setImageSize_resize [of 40 80 0 "Emulation ()"] setImageSize_resize [of 24 80 0 "Emulation ()"]
    setImageSize_resize [of 24 80 7 "Emulation ()"] setImageSize_resize [of 40 80 7 "Emulation ()"]
  by (simp add: resizeImage_def bufferedUpdate_timers)

text \<open>
  C7: \<^verbatim>\<open>setScreen\<close> leaves both screens, the emitted signals, the decoder and the timers
  as they are, also when called twice; the views are each sent one rebind to the new
  current screen when the current screen has changed, and nothing otherwise.
\<close>

theorem setScreen_frame:
  "screen0 (setScreen n s) = screen0 s \<and> screen1 (setScreen n s) = screen1 s \<and>
   screen0 (setScreen m (setScreen n s)) = screen0 s \<and>
   screen1 (setScreen m (setScreen n s)) = screen1 s \<and>
   emitted (setScreen n s) = emitted s \<and> decoder (setScreen n s) = decoder s \<and>
   bulkTimer1 (setScreen n s) = bulkTimer1 s \<and> bulkTimer2 (setScreen n s) = bulkTimer2 s \<and>
   (currentScreen (setScreen n s) \<noteq> currentScreen s \<longrightarrow>
      windows (setScreen n s) = map (window_setScreen (currentScreen (setScreen n s))) (windows s)) \<and>
   (currentScreen (setScreen n s) = currentScreen s \<longrightarrow> windows (setScreen n s) = windows s)"
  by (simp add: setScreen_def Let_def)

theorem setScreen_frame_witness:
  "currentScreen (setScreen 1 (createWindow (Emulation ()))) \<noteq> currentScreen (createWindow (Emulation ())) \<and>
   windows (setScreen 1 (createWindow (Emulation ()))) = [\<lparr>windowScreen = 1, setScreenCalls = 2\<rparr>] \<and>
   currentScreen (setScreen 2 (createWindow (Emulation ()))) = currentScreen (createWindow (Emulation ())) \<and>
   windows (setScreen 2 (createWindow (Emulation ()))) = [\<lparr>windowScreen = 0, setScreenCalls = 1\<rparr>]"
  using setScreen_frame [of 1 "createWindow (Emulation ())"] setScreen_frame [of 2 "createWindow (Emulation ())"]
  by (simp add: setScreen_def createWindow_def Emulation_def window_setScreen_def)

lemma and_one_int: "nat ((n :: int) AND 1) = (if even n then 0 else 1)"
  by (simp add: and_one_eq mod_2_eq_odd)

text \<open>
  C10: \<^verbatim>\<open>setScreen(n)\<close> makes the first screen current when \<open>n\<close> is even and the
  second when \<open>n\<close> is odd, whatever the integer \<open>n\<close>.
\<close>

theorem setScreen_low_bit:
  "currentScreen (setScreen n s) = (if even n then 0 else 1) \<and>
   currentScreen_deref (setScreen n s) = (if even n then screen0 s else screen1 s)"
  by (simp add: setScreen_def Let_def and_one_int currentScreen_deref_def)

theorem setScreen_low_bit_witness:
  "currentScreen (setScreen (- 3) (Emulation ())) = 1 \<and>
   currentScreen (setScreen 4 (setScreen 7 (Emulation ()))) = 0"
  using setScreen_low_bit [of "- 3" "Emulation ()"] setScreen_low_bit [of 4 "setScreen 7 (Emulation ())"]
  by simp

lemma showBulk_effect:
  "\<not> isActive (bulkTimer1 (showBulk s))"
  "\<not> isActive (bulkTimer2 (showBulk s))"
  "emitted (showBulk s) = emitted s @ [OutputChanged]"
  "scrolledLines (currentScreen_deref (showBulk s)) = 0"
  "droppedLines (currentScreen_deref (showBulk s)) = 0"
  by (simp_all add: showBulk_def timer_stop_def on_currentScreen_def emit_def
      resetScrolledLines_def resetDroppedLines_def currentScreen_deref_def)

lemma timerEvent_first:
  assumes "timer_due t (bulkTimer1 s)"
  shows "timerEvent t s = showBulk (s\<lparr>bulkTimer1 := timer_fire (bulkTimer1 s)\<rparr>)"
proof -
  have "\<not> timer_due t (bulkTimer2 (showBulk (s\<lparr>bulkTimer1 := timer_fire (bulkTimer1 s)\<rparr>)))"
    by (simp add: timer_due_def showBulk_effect)
  with assms show ?thesis by (simp add: timerEvent_def Let_def)
qed

lemma timerEvent_second:
  assumes "\<not> timer_due t (bulkTimer1 s)" "timer_due t (bulkTimer2 s)"
  shows "timerEvent t s = showBulk (s\<lparr>bulkTimer2 := timer_fire (bulkTimer2 s)\<rparr>)"
  using assms by (simp add: timerEvent_def Let_def)

lemma timerEvent_none:
  assumes "\<not> timer_due t (bulkTimer1 s)" "\<not> timer_due t (bulkTimer2 s)"
  shows "timerEvent t s = s"
  using assms by (simp add: timerEvent_def Let_def)

lemma timerEvent_due:
  assumes "timer_due t (bulkTimer1 s) \<or> timer_due t (bulkTimer2 s)"
  shows "\<not> isActive (bulkTimer1 (timerEvent t s))"
    "\<not> isActive (bulkTimer2 (timerEvent t s))"
    "emitted (timerEvent t s) = emitted s @ [OutputChanged]"
    "scrolledLines (currentScreen_deref (timerEvent t s)) = 0"
    "droppedLines (currentScreen_deref (timerEvent t s)) = 0"
proof -
  from assms obtain s' where s': "timerEvent t s = showBulk s'" "emitted s' = emitted s"
  proof (cases "timer_due t (bulkTimer1 s)")
    case True
    from timerEvent_first [OF True] that show ?thesis by simp
  next
    case False
    with assms have "timer_due t (bulkTimer2 s)" by simp
    from timerEvent_second [OF False this] that show ?thesis by simp
  qed
  then show "\<not> isActive (bulkTimer1 (timerEvent t s))"
    "\<not> isActive (bulkTimer2 (timerEvent t s))"
    "emitted (timerEvent t s) = emitted s @ [OutputChanged]"
    "scrolledLines (currentScreen_deref (timerEvent t s)) = 0"
    "droppedLines (currentScreen_deref (timerEvent t s)) = 0"
    by (simp_all add: showBulk_effect)
qed

lemma timers_receiveChar [simp]:
  "bulkTimer1 (receiveChar c s) = bulkTimer1 s" "bulkTimer2 (receiveChar c s) = bulkTimer2 s"
  by (simp_all add: receiveChar_def Let_def on_currentScreen_def emit_def)

lemma timers_receiveChars [simp]:
  "bulkTimer1 (foldl (\<lambda>st c. receiveChar c st) s cs) = bulkTimer1 s"
  "bulkTimer2 (foldl (\<lambda>st c. receiveChar c st) s cs) = bulkTimer2 s"
  by (induction cs arbitrary: s) simp_all

lemma timers_zmodem_loop [simp]:
  "bulkTimer1 (zmodem_loop bs i s) = bulkTimer1 s \<and> bulkTimer2 (zmodem_loop bs i s) = bulkTimer2 s"
proof (induction bs i s rule: zmodem_loop.induct)
  case (1 bs i s)
  show ?case
  proof (cases "i < length bs")
    case True
    with "1.IH" show ?thesis by (subst (1 2) zmodem_loop.simps) (simp add: emit_def)
  next
    case False
    then show ?thesis by (subst (1 2) zmodem_loop.simps) simp
  qed
qed

lemma timers_receiveData:
  "bulkTimer1 (receiveData decode now bs s) = bulkTimer1 (bufferedUpdate now s) \<and>
   bulkTimer2 (receiveData decode now bs s) = bulkTimer2 (bufferedUpdate now s)"
proof (cases "decoder s")
  case None
  then show ?thesis by (simp add: receiveData_def Let_def bufferedUpdate_def emit_def)
next
  case (Some d)
  obtain us d' where "decode d bs = (us, d')" by (cases "decode d bs")
  with Some show ?thesis by (simp add: receiveData_def Let_def bufferedUpdate_def emit_def)
qed

lemma timers_receiveData_armed:
  "isActive (bulkTimer1 (receiveData decode now bs s))"
  "expiry (bulkTimer1 (receiveData decode now bs s)) = now + 10"
  "isActive (bulkTimer2 (receiveData decode now bs s))"
  "expiry (bulkTimer2 (receiveData decode now bs s))
     = (if isActive (bulkTimer2 s) then expiry (bulkTimer2 s) else now + 40)"
  using timers_receiveData [of decode now bs s] bufferedUpdate_timers [of now s] by simp_all

lemma clearHistory_effect:
  "bulkTimer1 (clearHistory s) = bulkTimer1 s" "bulkTimer2 (clearHistory s) = bulkTimer2 s"
  "emitted (clearHistory s) = emitted s" "histLines (screen0 (clearHistory s)) = []"
  "getScroll (screen0 (clearHistory s)) = getScroll (screen0 s)"
  by (simp_all add: clearHistory_def setScroll_def)

lemma setHistory_effect:
  "\<not> isActive (bulkTimer1 (setHistory h s))" "\<not> isActive (bulkTimer2 (setHistory h s))"
  "emitted (setHistory h s) = emitted s @ [OutputChanged]"
  "getScroll (screen0 (setHistory h s)) = h"
  "histLines (screen0 (setHistory h s)) = scroll_fit h (histLines (screen0 s))"
  by (simp_all add: setHistory_def showBulk_def timer_stop_def on_currentScreen_def emit_def
      resetScrolledLines_def resetDroppedLines_def setScroll_def)

text \<open>
  C8, as stated, fails for \<^verbatim>\<open>clearHistory\<close>: it empties the scrollback of the first
  screen, starts no timer and emits nothing.
\<close>

theorem clearHistory_no_update_counterexample:
  "histLines (screen0 ((Emulation ())\<lparr>screen0 := (Screen 40 80)\<lparr>histLines := [[0x6c, 0x73]]\<rparr>\<rparr>))
     = [[0x6c, 0x73]] \<and>
   histLines (screen0 (clearHistory
     ((Emulation ())\<lparr>screen0 := (Screen 40 80)\<lparr>histLines := [[0x6c, 0x73]]\<rparr>\<rparr>))) = [] \<and>
   \<not> isActive (bulkTimer1 (clearHistory
     ((Emulation ())\<lparr>screen0 := (Screen 40 80)\<lparr>histLines := [[0x6c, 0x73]]\<rparr>\<rparr>))) \<and>
   \<not> isActive (bulkTimer2 (clearHistory
     ((Emulation ())\<lparr>screen0 := (Screen 40 80)\<lparr>histLines := [[0x6c, 0x73]]\<rparr>\<rparr>))) \<and>
   emitted (clearHistory
     ((Emulation ())\<lparr>screen0 := (Screen 40 80)\<lparr>histLines := [[0x6c, 0x73]]\<rparr>\<rparr>)) = []"
  by (simp add: clearHistory_def setScroll_def Emulation_def)

text \<open>
  C8 (amended): \<^verbatim>\<open>bufferedUpdate\<close> restarts the first timer with 10 ms and starts the
  second with 40 ms only when it is not running; \<^verbatim>\<open>receiveData\<close> and every
  \<^verbatim>\<open>setImageSize\<close> that changes a size arm the timers in this way. \<^verbatim>\<open>setHistory\<close>
  flushes at once: both timers are stopped and \<^verbatim>\<open>outputChanged\<close> is emitted once.
  \<^verbatim>\<open>clearHistory\<close> empties the scrollback and leaves timers and signals as they are.
  When one of the timers is due, the event loop leaves both timers stopped, emits
  \<^verbatim>\<open>outputChanged\<close> exactly once and resets the scrolled and dropped lines of the
  current screen; when none is due, nothing happens.
\<close>

theorem bufferedUpdate_showBulk:
  "isActive (bulkTimer1 (bufferedUpdate now s)) \<and>
   expiry (bulkTimer1 (bufferedUpdate now s)) = now + 10 \<and>
   isActive (bulkTimer2 (bufferedUpdate now s)) \<and>
   expiry (bulkTimer2 (bufferedUpdate now s))
     = (if isActive (bulkTimer2 s) then expiry (bulkTimer2 s) else now + 40) \<and>
   bulkTimer1 (receiveData decode now bs s) = bulkTimer1 (bufferedUpdate now s) \<and>
   bulkTimer2 (receiveData decode now bs s) = bulkTimer2 (bufferedUpdate now s) \<and>
   (timer_due t (bulkTimer1 s) \<or> timer_due t (bulkTimer2 s) \<longrightarrow>
      \<not> isActive (bulkTimer1 (timerEvent t s)) \<and>
      \<not> isActive (bulkTimer2 (timerEvent t s)) \<and>
      emitted (timerEvent t s) = emitted s @ [OutputChanged] \<and>
      scrolledLines (currentScreen_deref (timerEvent t s)) = 0 \<and>
      droppedLines (currentScreen_deref (timerEvent t s)) = 0) \<and>
   (\<not> timer_due t (bulkTimer1 s) \<and> \<not> timer_due t (bulkTimer2 s) \<longrightarrow> timerEvent t s = s) \<and>
   isActive (bulkTimer1 (receiveData decode now bs s)) \<and>
   expiry (bulkTimer1 (receiveData decode now bs s)) = now + 10 \<and>
   isActive (bulkTimer2 (receiveData decode now bs s)) \<and>
   expiry (bulkTimer2 (receiveData decode now bs s))
     = (if isActive (bulkTimer2 s) then expiry (bulkTimer2 s) else now + 40) \<and>
   (1 \<le> lines \<and> 1 \<le> columns \<and>
    \<not> (getLines (screen0 s) = lines \<and> getColumns (screen0 s) = columns \<and>
       getLines (screen1 s) = lines \<and> getColumns (screen1 s) = columns) \<longrightarrow>
      isActive (bulkTimer1 (setImageSize now lines columns s)) \<and>
      expiry (bulkTimer1 (setImageSize now lines columns s)) = now + 10 \<and>
      isActive (bulkTimer2 (setImageSize now lines columns s)) \<and>
      expiry (bulkTimer2 (setImageSize now lines columns s))
        = (if isActive (bulkTimer2 s) then expiry (bulkTimer2 s) else now + 40)) \<and>
   \<not> isActive (bulkTimer1 (setHistory h s)) \<and>
   \<not> isActive (bulkTimer2 (setHistory h s)) \<and>
   emitted (setHistory h s) = emitted s @ [OutputChanged] \<and>
   getScroll (screen0 (setHistory h s)) = h \<and>
   histLines (screen0 (clearHistory s)) = [] \<and>
   bulkTimer1 (clearHistory s) = bulkTimer1 s \<and>
   bulkTimer2 (clearHistory s) = bulkTimer2 s \<and>
   emitted (clearHistory s) = emitted s"
proof -
  have resize: "1 \<le> lines \<and> 1 \<le> columns \<and>
    \<not> (getLines (screen0 s) = lines \<and> getColumns (screen0 s) = columns \<and>
       getLines (screen1 s) = lines \<and> getColumns (screen1 s) = columns) \<longrightarrow>
      isActive (bulkTimer1 (setImageSize now lines columns s)) \<and>
      expiry (bulkTimer1 (setImageSize now lines columns s)) = now + 10 \<and>
      isActive (bulkTimer2 (setImageSize now lines columns s)) \<and>
      expiry (bulkTimer2 (setImageSize now lines columns s))
        = (if isActive (bulkTimer2 s) then expiry (bulkTimer2 s) else now + 40)"
  proof
    assume a: "1 \<le> lines \<and> 1 \<le> columns \<and>
      \<not> (getLines (screen0 s) = lines \<and> getColumns (screen0 s) = columns \<and>
         getLines (screen1 s) = lines \<and> getColumns (screen1 s) = columns)"
    let ?s' = "emit (ImageSizeChanged lines columns)
       (s\<lparr>screen0 := resizeImage lines columns (screen0 s),
          screen1 := resizeImage lines columns (screen1 s)\<rparr>)"
    from a have eq: "setImageSize now lines columns s = bufferedUpdate now ?s'"
      by (auto simp: setImageSize_def Let_def)
    have keep: "isActive (bulkTimer2 ?s') = isActive (bulkTimer2 s)"
      "expiry (bulkTimer2 ?s') = expiry (bulkTimer2 s)"
      by (simp_all add: emit_def)
    show "isActive (bulkTimer1 (setImageSize now lines columns s)) \<and>
      expiry (bulkTimer1 (setImageSize now lines columns s)) = now + 10 \<and>
      isActive (bulkTimer2 (setImageSize now lines columns s)) \<and>
      expiry (bulkTimer2 (setImageSize now lines columns s))
        = (if isActive (bulkTimer2 s) then expiry (bulkTimer2 s) else now + 40)"
      unfolding eq using bufferedUpdate_timers [of now ?s'] by (simp only: keep)
  qed
  show ?thesis
    using bufferedUpdate_timers [of now s] timers_receiveData [of decode now bs s]
      timerEvent_due [of t s] timerEvent_none [of t s]
      timers_receiveData_armed [of decode now bs s] resize
      setHistory_effect(1-4) [of h s] clearHistory_effect(1-4) [of s]
    by blast
qed

theorem bufferedUpdate_showBulk_witness:
  "timer_due 10 (bulkTimer1 (bufferedUpdate 0 (Emulation ()))) \<and>
   emitted (timerEvent 10 (bufferedUpdate 0 (Emulation ()))) = [OutputChanged] \<and>
   \<not> isActive (bulkTimer2 (timerEvent 10 (bufferedUpdate 0 (Emulation ())))) \<and>
   expiry (bulkTimer1 (bufferedUpdate 5 (bufferedUpdate 0 (Emulation ())))) = 15 \<and>
   expiry (bulkTimer2 (bufferedUpdate 5 (bufferedUpdate 0 (Emulation ())))) = 40 \<and>
   \<not> timer_due 3 (bulkTimer1 (bufferedUpdate 0 (Emulation ()))) \<and>
   \<not> timer_due 3 (bulkTimer2 (bufferedUpdate 0 (Emulation ()))) \<and>
   timerEvent 3 (bufferedUpdate 0 (Emulation ())) = bufferedUpdate 0 (Emulation ()) \<and>
   (1 :: int) \<le> 24 \<and> (1 :: int) \<le> 80 \<and> getLines (screen0 (Emulation ())) \<noteq> 24 \<and>
   expiry (bulkTimer1 (setImageSize 5 24 80 (bufferedUpdate 0 (Emulation ())))) = 15 \<and>
   expiry (bulkTimer2 (setImageSize 5 24 80 (bufferedUpdate 0 (Emulation ())))) = 40 \<and>
   expiry (bulkTimer2 (receiveData latin1 5 [] (Emulation ()))) = 45 \<and>
   \<not> isActive (bulkTimer1 (setHistory Unbounded (bufferedUpdate 0 (Emulation ())))) \<and>
   emitted (setHistory Unbounded (bufferedUpdate 0 (Emulation ()))) = [OutputChanged] \<and>
   isActive (bulkTimer1 (clearHistory (bufferedUpdate 0 (Emulation ()))))"
  using bufferedUpdate_showBulk [of 0 "Emulation ()" latin1 "[]" 10 24 80 Unbounded]
    bufferedUpdate_showBulk [of 5 "bufferedUpdate 0 (Emulation ())" latin1 "[]" 10 24 80 Unbounded]
    bufferedUpdate_showBulk [of 0 "bufferedUpdate 0 (Emulation ())" latin1 "[]" 10 24 80 Unbounded]
    bufferedUpdate_showBulk [of 0 "bufferedUpdate 0 (Emulation ())" latin1 "[]" 3 24 80 Unbounded]
    bufferedUpdate_showBulk [of 5 "Emulation ()" latin1 "[]" 3 24 80 Unbounded]
  by (simp add: timer_due_def bufferedUpdate_def Let_def)

section \<open>HistorySearch\<close>

lemma search_loop_unfold:
  "search_loop emulation rx forwards startColumn startLine endColumn endLine linesRead =
     (if 0 < min 10000 (endLine - startLine + 1 - linesRead) then
        (case search_block emulation rx forwards startColumn startLine endColumn linesRead
                (if forwards then startLine + linesRead
                 else endLine - linesRead - min 10000 (endLine - startLine + 1 - linesRead) + 1)
                ((if forwards then startLine + linesRead
                  else endLine - linesRead - min 10000 (endLine - startLine + 1 - linesRead) + 1)
                  + min 10000 (endLine - startLine + 1 - linesRead) - 1) of
           NoMatch \<Rightarrow>
             apsnd ((#) ((if forwards then startLine + linesRead
                          else endLine - linesRead - min 10000 (endLine - startLine + 1 - linesRead) + 1),
                         (if forwards then startLine + linesRead
                          else endLine - linesRead - min 10000 (endLine - startLine + 1 - linesRead) + 1)
                           + min 10000 (endLine - startLine + 1 - linesRead) - 1))
               (search_loop emulation rx forwards startColumn startLine endColumn endLine
                  (linesRead + min 10000 (endLine - startLine + 1 - linesRead)))
         | found \<Rightarrow>
             (found, [((if forwards then startLine + linesRead
                        else endLine - linesRead - min 10000 (endLine - startLine + 1 - linesRead) + 1),
                       (if forwards then startLine + linesRead
                        else endLine - linesRead - min 10000 (endLine - startLine + 1 - linesRead) + 1)
                         + min 10000 (endLine - startLine + 1 - linesRead) - 1)]))
      else (NoMatch, []))"
  by (subst search_loop.simps) (simp only: Let_def)


lemma findLineNumberInString_loop_bound:
  "lineNum < length linePositions \<Longrightarrow>
   findLineNumberInString_loop linePositions position lineNum < length linePositions"
proof (induction linePositions position lineNum rule: findLineNumberInString_loop.induct)
  case (1 linePositions position lineNum)
  show ?case
  proof (cases "lineNum + 1 < length linePositions \<and> linePositions ! (lineNum + 1) \<le> position")
    case True
    with "1.IH" show ?thesis by (subst findLineNumberInString_loop.simps) simp
  next
    case False
    with "1.prems" show ?thesis by (subst findLineNumberInString_loop.simps) auto
  qed
qed

lemma QList_at_findLineNumberInString:
  assumes "linePositions \<noteq> []"
  shows "\<exists>v. QList_at linePositions (findLineNumberInString linePositions position) = Some v"
proof -
  from assms have "0 < length linePositions" by simp
  from findLineNumberInString_loop_bound [OF this]
  show ?thesis by (simp add: QList_at_def findLineNumberInString_def)
qed

lemma search_block_no_fault:
  assumes "snd (writeToStream emulation a b) \<noteq> []"
  shows "search_block emulation rx forwards startColumn startLine endColumn linesRead a b \<noteq> OutOfRange"
proof -
  obtain string linePositions where w: "writeToStream emulation a b = (string, linePositions)"
    by (cases "writeToStream emulation a b")
  with assms have ne: "linePositions \<noteq> []" by simp
  obtain match matchStart where
    m: "block_match rx forwards string startColumn (endPosition_of string linePositions endColumn)
          = (match, matchStart)"
    by (cases "block_match rx forwards string startColumn (endPosition_of string linePositions endColumn)")
  show ?thesis
  proof (cases "matchStart > - 1")
    case False
    with w m show ?thesis by (simp add: search_block_def)
  next
    case True
    let ?matchEnd = "matchStart + (case match of Some m \<Rightarrow> capturedLength m | None \<Rightarrow> 0) - 1"
    from QList_at_findLineNumberInString [OF ne] obtain u v where
      "QList_at linePositions (findLineNumberInString linePositions matchStart) = Some u"
      "QList_at linePositions (findLineNumberInString linePositions ?matchEnd) = Some v"
      by blast
    with True w m show ?thesis by (simp add: search_block_def Let_def)
  qed
qed

lemma search_loop_no_fault:
  assumes "\<forall>a b. a \<le> b \<longrightarrow> snd (writeToStream emulation a b) \<noteq> []"
  shows "fst (search_loop emulation rx forwards startColumn startLine endColumn endLine linesRead)
           \<noteq> OutOfRange"
  using assms
proof (induction emulation rx forwards startColumn startLine endColumn endLine linesRead
    rule: search_loop.induct)
  case (1 emulation rx forwards startColumn startLine endColumn endLine linesRead)
  let ?size = "min 10000 (endLine - startLine + 1 - linesRead)"
  let ?start = "if forwards then startLine + linesRead else endLine - linesRead - ?size + 1"
  let ?end = "?start + ?size - 1"
  show ?case
  proof (cases "0 < ?size")
    case False
    then show ?thesis by (subst search_loop_unfold) simp
  next
    case True
    then have "?start \<le> ?end" by simp
    then have nf: "search_block emulation rx forwards startColumn startLine endColumn linesRead ?start ?end
        \<noteq> OutOfRange"
      using "1.prems" by (intro search_block_no_fault) blast
    show ?thesis
    proof (cases "search_block emulation rx forwards startColumn startLine endColumn linesRead ?start ?end = NoMatch")
      case nomatch: True
      from "1.IH" [OF refl refl True refl refl nomatch "1.prems"]
      have "fst (search_loop emulation rx forwards startColumn startLine endColumn endLine
                (linesRead + ?size)) \<noteq> OutOfRange" by simp
      with True nomatch show ?thesis
        by (subst search_loop_unfold) simp
    next
      case False
      with nf obtain p q r t where
        m: "search_block emulation rx forwards startColumn startLine endColumn linesRead ?start ?end
              = Match p q r t"
        by (cases "search_block emulation rx forwards startColumn startLine endColumn linesRead ?start ?end")
           auto
      have "search_loop emulation rx forwards startColumn startLine endColumn endLine linesRead
              = (Match p q r t, [(?start, ?end)])"
        by (subst search_loop_unfold) (simp only: True if_True m outcome.case)
      then show ?thesis by simp
    qed
  qed
qed

lemma or_else_no_fault:
  "fst a \<noteq> OutOfRange \<Longrightarrow> fst b \<noteq> OutOfRange \<Longrightarrow> fst (or_else a b) \<noteq> OutOfRange"
  by (auto simp: or_else_def split: outcome.splits)























text \<open>
  C9: with an empty pattern \<^verbatim>\<open>search()\<close> emits nothing and calls \<^verbatim>\<open>deleteLater()\<close>.
  With a non-empty pattern, and a decoder that records at least one line position for
  every block, it emits exactly one signal, \<^verbatim>\<open>matchFound\<close> or \<^verbatim>\<open>noMatchFound\<close>, and calls
  \<^verbatim>\<open>deleteLater()\<close>. The search is a total function: it always returns.
\<close>

theorem search_one_emission:
  "(pattern (m_regExp hs) = [] \<longrightarrow>
      signals (search emulation hs) = [] \<and> deleteLater (search emulation hs)) \<and>
   (pattern (m_regExp hs) \<noteq> [] \<and> (\<forall>a b. a \<le> b \<longrightarrow> snd (writeToStream emulation a b) \<noteq> []) \<longrightarrow>
      deleteLater (search emulation hs) \<and>
      ((\<exists>sc sl ec el. signals (search emulation hs) = [MatchFound sc sl ec el]) \<or>
       signals (search emulation hs) = [NoMatchFound]))"
proof (intro conjI impI)
  assume "pattern (m_regExp hs) = []"
  then show "signals (search emulation hs) = []" "deleteLater (search emulation hs)"
    by (simp_all add: search_def)
next
  assume a: "pattern (m_regExp hs) \<noteq> [] \<and> (\<forall>a b. a \<le> b \<longrightarrow> snd (writeToStream emulation a b) \<noteq> [])"
  define found where "found =
     (if m_forwards hs then
        or_else (search4 emulation hs (m_startColumn hs) (m_startLine hs) (- 1) (lineCount emulation))
                (search4 emulation hs 0 0 (m_startColumn hs) (m_startLine hs))
      else
        or_else (search4 emulation hs 0 0 (m_startColumn hs) (m_startLine hs))
                (search4 emulation hs (m_startColumn hs) (m_startLine hs) (- 1) (lineCount emulation)))"
  have nf: "fst (search4 emulation hs sc sl ec el) \<noteq> OutOfRange" for sc sl ec el
    unfolding search4_def by (rule search_loop_no_fault) (use a in blast)
  have "fst found \<noteq> OutOfRange"
    unfolding found_def by (simp add: or_else_no_fault nf)
  moreover have "search emulation hs =
      (case fst found of
         Match sc sl ec el \<Rightarrow>
           \<lparr>signals = [MatchFound sc sl ec el], deleteLater = True, outOfRange = False, streamed = snd found\<rparr>
       | NoMatch \<Rightarrow>
           \<lparr>signals = [NoMatchFound], deleteLater = True, outOfRange = False, streamed = snd found\<rparr>
       | OutOfRange \<Rightarrow>
           \<lparr>signals = [], deleteLater = False, outOfRange = True, streamed = snd found\<rparr>)"
    using a unfolding found_def by (simp add: search_def Let_def)
  ultimately show "deleteLater (search emulation hs)"
    "(\<exists>sc sl ec el. signals (search emulation hs) = [MatchFound sc sl ec el]) \<or>
       signals (search emulation hs) = [NoMatchFound]"
    by (cases "fst found"; simp)+
qed

lemma decodeLines_positions: "ls \<noteq> [] \<Longrightarrow> snd (decodeLines closing ls pos) \<noteq> []"
  by (induction closing ls pos rule: decodeLines.induct) (auto split: prod.splits)

lemma screenText_positions: "a \<le> b \<Longrightarrow> snd (writeToStream (screenText closing ls) a b) \<noteq> []"
proof -
  assume "a \<le> b"
  then have "[a..b] \<noteq> []" by (simp add: upto.simps)
  then show ?thesis by (simp add: screenText_def decodeLines_positions)
qed

theorem search_one_emission_witness:
  "pattern (m_regExp (hsearch ''bar'' True 0 0)) \<noteq> [] \<and>
   \<not> (\<exists>a b. a \<le> b \<and> snd (writeToStream (screenText True [''foo'', ''bar'', ''foobar'']) a b) = []) \<and>
   signals (search (screenText True [''foo'', ''bar'', ''foobar'']) (hsearch ''bar'' True 0 0))
     = [MatchFound 0 1 2 1] \<and>
   signals (search (screenText True [''foo'', ''bar'', ''foobar'']) (hsearch ''baz'' False 1 1))
     = [NoMatchFound] \<and>
   pattern (m_regExp (hsearch '''' True 0 0)) = [] \<and>
   signals (search (screenText True [''foo'', ''bar'', ''foobar'']) (hsearch '''' True 0 0)) = [] \<and>
   deleteLater (search (screenText True [''foo'', ''bar'', ''foobar'']) (hsearch '''' True 0 0))"
proof -
  let ?emu = "screenText True [''foo'', ''bar'', ''foobar'']"
  have h1: "pattern (m_regExp (hsearch ''bar'' True 0 0)) \<noteq> []" by code_simp
  have h2: "\<forall>a b. a \<le> b \<longrightarrow> snd (writeToStream ?emu a b) \<noteq> []"
    by (simp add: screenText_positions)
  have h3: "pattern (m_regExp (hsearch '''' True 0 0)) = []" by code_simp
  have e1: "signals (search ?emu (hsearch ''bar'' True 0 0)) = [MatchFound 0 1 2 1]" by code_simp
  have e2: "signals (search ?emu (hsearch ''baz'' False 1 1)) = [NoMatchFound]" by code_simp
  from search_one_emission [of "hsearch ''bar'' True 0 0" ?emu]
    search_one_emission [of "hsearch '''' True 0 0" ?emu] h1 h2 h3 e1 e2
  show ?thesis by simp
qed

end
